theory Spec2Isabelle
  imports
    Complex_Main
    "HOL-Library.FSet"
    "HOL-Library.Finite_Map"
    "HOL-Library.Char_ord"
    "HOL-Library.List_Lexorder"
    "HOL-Library.Sublist"
begin

section \<open>The platform: JavaScript dates, numbers and exceptions\<close>

text \<open>
  The habit tracker is TypeScript running in a browser. Its engine (the hook
  \<open>useHabits\<close>, the hook \<open>useLocalStorage\<close> and the date utilities) calls a handful of
  built-ins: \<open>new Date()\<close>, \<open>Date.now()\<close>, \<open>getDate\<close>, \<open>setDate\<close>, \<open>toISOString\<close>,
  \<open>Number.prototype.toString\<close>, \<open>JSON.parse\<close> and \<open>localStorage.getItem\<close>. The date
  built-ins are modelled after the ECMAScript specification (section "Date Objects"):
  a Date holds a time value, the number of milliseconds since 1970-01-01T00:00:00Z, or is
  invalid (NaN). The time zone of the machine is a parameter.
\<close>

datatype js_error = RangeError | SyntaxError | SecurityError

type_synonym Date = "int option"
  \<comment> \<open>\<open>Some t\<close>: the time value \<open>t\<close>; \<open>None\<close>: an Invalid Date (time value NaN)\<close>

type_synonym Number = "int option"
  \<comment> \<open>the integral numbers the date code computes with; \<open>None\<close> is NaN\<close>

definition msPerDay :: int where
  "msPerDay = 86400000"

definition Day :: "int \<Rightarrow> int" where
  "Day t = t div msPerDay"

definition TimeWithinDay :: "int \<Rightarrow> int" where
  "TimeWithinDay t = t mod msPerDay"

definition DaysInYear :: "int \<Rightarrow> int" where
  "DaysInYear y =
     (if y mod 4 \<noteq> 0 then 365
      else if y mod 100 \<noteq> 0 then 366
      else if y mod 400 \<noteq> 0 then 365
      else 366)"

definition DayFromYear :: "int \<Rightarrow> int" where
  "DayFromYear y =
     365 * (y - 1970) + (y - 1969) div 4 - (y - 1901) div 100 + (y - 1601) div 400"

text \<open>
  ECMAScript defines \<open>YearFromTime t\<close> as the largest \<open>y\<close> with
  \<open>DayFromYear y * msPerDay \<le> t\<close>. The executable form estimates the year from the mean
  length of a Gregorian year (146097 days in 400 years) and corrects the estimate by at
  most one; \<open>YearFromTime_lower\<close> and \<open>YearFromTime_upper\<close> below show that it is that
  largest year.
\<close>

definition YearFromTime :: "int \<Rightarrow> int" where
  "YearFromTime t =
     (let d = Day t; y = 1970 + (400 * d) div 146097
      in if DayFromYear (y + 1) \<le> d then y + 1
         else if d < DayFromYear y then y - 1
         else y)"

definition InLeapYear :: "int \<Rightarrow> int" where
  "InLeapYear t = (if DaysInYear (YearFromTime t) = 366 then 1 else 0)"

definition DayWithinYear :: "int \<Rightarrow> int" where
  "DayWithinYear t = Day t - DayFromYear (YearFromTime t)"

text \<open>The day of the year on which month \<open>m\<close> (0 = January) starts; \<open>l\<close> is 1 in a leap year.\<close>

definition monthStart :: "int \<Rightarrow> int \<Rightarrow> int" where
  "monthStart m l =
     (if m = 0 then 0
      else if m = 1 then 31
      else if m = 2 then 59 + l
      else if m = 3 then 90 + l
      else if m = 4 then 120 + l
      else if m = 5 then 151 + l
      else if m = 6 then 181 + l
      else if m = 7 then 212 + l
      else if m = 8 then 243 + l
      else if m = 9 then 273 + l
      else if m = 10 then 304 + l
      else 334 + l)"

definition MonthFromTime :: "int \<Rightarrow> int" where
  "MonthFromTime t =
     (let d = DayWithinYear t; l = InLeapYear t
      in if d < 31 then 0
         else if d < 59 + l then 1
         else if d < 90 + l then 2
         else if d < 120 + l then 3
         else if d < 151 + l then 4
         else if d < 181 + l then 5
         else if d < 212 + l then 6
         else if d < 243 + l then 7
         else if d < 273 + l then 8
         else if d < 304 + l then 9
         else if d < 334 + l then 10
         else 11)"

definition DateFromTime :: "int \<Rightarrow> int" where
  "DateFromTime t = DayWithinYear t - monthStart (MonthFromTime t) (InLeapYear t) + 1"

text \<open>
  \<open>MakeDay year month date\<close>: the day number of the first of the month, plus \<open>date - 1\<close>;
  a date below 1 or beyond the month's length runs over into the neighbouring months.
\<close>

definition MakeDay :: "int \<Rightarrow> int \<Rightarrow> int \<Rightarrow> int" where
  "MakeDay year month date =
     (let ym = year + month div 12; mn = month mod 12
      in DayFromYear ym + monthStart mn (if DaysInYear ym = 366 then 1 else 0) + date - 1)"

definition MakeDate :: "int \<Rightarrow> int \<Rightarrow> int" where
  "MakeDate day time = day * msPerDay + time"

definition TimeClip :: "int \<Rightarrow> Date" where
  "TimeClip t = (if \<bar>t\<bar> > 8640000000000000 then None else Some t)"

text \<open>
  The time zone of the machine: the offset of local time from UTC, in milliseconds, in
  force at a UTC instant, and the offset with which a local time value is read back as a
  UTC instant.
\<close>

record TimeZone =
  offsetAtUTC :: "int \<Rightarrow> int"
  offsetAtLocal :: "int \<Rightarrow> int"

definition LocalTime :: "TimeZone \<Rightarrow> int \<Rightarrow> int" where
  "LocalTime tz t = t + offsetAtUTC tz t"

definition UTC :: "TimeZone \<Rightarrow> int \<Rightarrow> int" where
  "UTC tz t = t - offsetAtLocal tz t"

text \<open>\<open>new Date()\<close> at the clock reading \<open>now\<close>, a time value.\<close>

definition new_Date :: "int \<Rightarrow> Date" where
  "new_Date now = Some now"

text \<open>\<open>d.getDate()\<close>: the day of the month in local time.\<close>

definition getDate :: "TimeZone \<Rightarrow> Date \<Rightarrow> Number" where
  "getDate tz d = (case d of None \<Rightarrow> None | Some t \<Rightarrow> Some (DateFromTime (LocalTime tz t)))"

text \<open>\<open>a - i\<close> on numbers: NaN is absorbing.\<close>

definition minus_Number :: "Number \<Rightarrow> int \<Rightarrow> Number" where
  "minus_Number a i = (case a of None \<Rightarrow> None | Some n \<Rightarrow> Some (n - i))"

text \<open>
  \<open>d.setDate(dt)\<close>: the Date that \<open>d\<close> becomes. The local year, month and time of day are
  kept, the day of the month is replaced, and the result is read back as a UTC instant.
\<close>

definition setDate :: "TimeZone \<Rightarrow> Date \<Rightarrow> Number \<Rightarrow> Date" where
  "setDate tz d dt =
     (case d of None \<Rightarrow> None
      | Some t0 \<Rightarrow>
          (case dt of None \<Rightarrow> None
           | Some n \<Rightarrow>
               (let t = LocalTime tz t0;
                    newDate = MakeDate (MakeDay (YearFromTime t) (MonthFromTime t) n)
                                (TimeWithinDay t)
                in TimeClip (UTC tz newDate))))"

subsection \<open>Numbers and dates as text\<close>

definition digit_char :: "nat \<Rightarrow> char" where
  "digit_char d = char_of (48 + d)"

fun digits :: "nat \<Rightarrow> string" where
  "digits n = (if n < 10 then [digit_char n] else digits (n div 10) @ [digit_char (n mod 10)])"

declare digits.simps [simp del]

text \<open>\<open>n.toString()\<close> for an integral number below \<open>10^21\<close> in magnitude.\<close>

definition Number_toString :: "int \<Rightarrow> string" where
  "Number_toString i = (if i < 0 then CHR ''-'' # digits (nat (- i)) else digits (nat i))"

definition padStart :: "nat \<Rightarrow> string \<Rightarrow> string" where
  "padStart n s = replicate (n - length s) CHR ''0'' @ s"

text \<open>The number that a string of decimal digits denotes; it reads \<open>digits\<close> back.\<close>

definition digits_value :: "string \<Rightarrow> nat" where
  "digits_value s = foldl (\<lambda>a c. 10 * a + (of_char c - 48)) 0 s"

text \<open>
  The year of \<open>toISOString\<close>: four digits for the years 0 to 9999, otherwise a sign and
  six digits.
\<close>

definition isoYear :: "int \<Rightarrow> string" where
  "isoYear y =
     (if 0 \<le> y \<and> y \<le> 9999 then padStart 4 (digits (nat y))
      else (if y < 0 then CHR ''-'' else CHR ''+'') # padStart 6 (digits (nat \<bar>y\<bar>)))"

text \<open>The part of \<open>toISOString()\<close> before the \<open>T\<close>: the UTC calendar day of a time value.\<close>

definition isoDate :: "int \<Rightarrow> string" where
  "isoDate t =
     isoYear (YearFromTime t) @ ''-'' @ padStart 2 (digits (nat (MonthFromTime t + 1)))
       @ ''-'' @ padStart 2 (digits (nat (DateFromTime t)))"

section \<open>Calendar utilities (\<open>utils/dateUtils.ts\<close>)\<close>

text \<open>
  \<open>formatDate = date.toISOString().split('T')[0]\<close>; \<open>toISOString\<close> throws a RangeError on
  an Invalid Date.
\<close>

definition formatDate :: "Date \<Rightarrow> js_error + string" where
  "formatDate date = (case date of None \<Rightarrow> Inl RangeError | Some t \<Rightarrow> Inr (isoDate t))"

text \<open>
  \<open>getDateRange\<close>: the loop \<open>for (let i = days - 1; i >= 0; i--)\<close>, each round pushing a
  copy of \<open>today\<close> moved by \<open>setDate(today.getDate() - i)\<close>.
\<close>

function getDateRange_loop :: "TimeZone \<Rightarrow> Date \<Rightarrow> int \<Rightarrow> Date list \<Rightarrow> Date list" where
  "getDateRange_loop tz today i dates =
     (if i \<ge> 0
      then getDateRange_loop tz today (i - 1)
             (dates @ [setDate tz today (minus_Number (getDate tz today) i)])
      else dates)"
  by pat_completeness auto
termination
  by (relation "measure (\<lambda>(tz, today, i, dates). nat (i + 1))") auto

declare getDateRange_loop.simps [simp del]

definition getDateRange :: "TimeZone \<Rightarrow> int \<Rightarrow> int \<Rightarrow> Date list" where
  "getDateRange tz now days = getDateRange_loop tz (new_Date now) (days - 1) []"

text \<open>\<open>isToday date = (formatDate date === formatDate (new Date()))\<close>.\<close>

definition isToday :: "int \<Rightarrow> Date \<Rightarrow> js_error + bool" where
  "isToday now date =
     (case formatDate date of Inl e \<Rightarrow> Inl e
      | Inr s \<Rightarrow> (case formatDate (new_Date now) of Inl e \<Rightarrow> Inl e | Inr s' \<Rightarrow> Inr (s = s')))"

section \<open>Data model (\<open>types/habit.ts\<close>)\<close>

text \<open>
  \<open>completions: Record<string, boolean>\<close> is a finite map from calendar-day identifiers to
  flags. A key that was never written is absent, which is different from a key written
  with \<open>false\<close>.
\<close>

type_synonym Completions = "(string, bool) fmap"

record Habit =
  h_id :: string
  name :: string
  emoji :: string
  color :: string
  createdAt :: string
  completions :: Completions

record HabitStats =
  currentStreak :: nat
  longestStreak :: nat
  completionRate :: real
  totalCompletions :: nat

text \<open>\<open>Partial<Habit>\<close>: for each field of a habit, a new value or none.\<close>

record HabitUpdates =
  new_id :: "string option"
  new_name :: "string option"
  new_emoji :: "string option"
  new_color :: "string option"
  new_createdAt :: "string option"
  new_completions :: "Completions option"

text \<open>
  \<open>habit.completions[date]\<close> read as a condition or under \<open>!\<close>: an absent key gives
  \<open>undefined\<close>, which is falsy like \<open>false\<close>.
\<close>

definition truthy :: "Completions \<Rightarrow> string \<Rightarrow> bool" where
  "truthy c date = (fmlookup c date = Some True)"

text \<open>
  \<open>Object.keys\<close> and \<open>Object.values\<close> enumerate the entries of an object once each. The
  engine only takes the length of these arrays or sorts them, so the enumeration order
  (insertion order in JavaScript) is immaterial and the keys are listed in ascending
  order here.
\<close>

definition Object_keys :: "Completions \<Rightarrow> string list" where
  "Object_keys c = sorted_list_of_fset (fmdom c)"

definition Object_values :: "Completions \<Rightarrow> bool list" where
  "Object_values c = List.map_filter (fmlookup c) (Object_keys c)"

section \<open>Persistent store (\<open>useLocalStorage\<close>)\<close>

datatype log_entry = ErrorReading string js_error

text \<open>
  The values that \<open>JSON.parse\<close> returns. The type argument of \<open>useLocalStorage<T>\<close> is
  erased when the program runs: whatever the stored text parses to is returned as a \<open>T\<close>,
  be it a \<open>T\<close> or not.
\<close>

datatype json =
    JNull
  | JBool bool
  | JNumber int
  | JString string
  | JArray "json list"
  | JObject "(string \<times> json) list"

text \<open>
  The initial read of \<open>useLocalStorage(key, initialValue)\<close>:
  \<^verbatim>\<open>try { const item = window.localStorage.getItem(key);
        return item ? JSON.parse(item) : initialValue; }
  catch (error) { console.error(...); return initialValue; }\<close>
  \<open>getItem\<close> and \<open>JSON.parse\<close> belong to the platform and are parameters; either may
  throw. The result is the value read and what was written to the console.
\<close>

definition useLocalStorage_read ::
  "(string \<Rightarrow> js_error + string option) \<Rightarrow> (string \<Rightarrow> js_error + 'a) \<Rightarrow> string \<Rightarrow> 'a
     \<Rightarrow> 'a \<times> log_entry list" where
  "useLocalStorage_read getItem JSON_parse key initialValue =
     (case getItem key of
        Inl error \<Rightarrow> (initialValue, [ErrorReading key error])
      | Inr item \<Rightarrow>
          (case item of
             None \<Rightarrow> (initialValue, [])
           | Some text \<Rightarrow>
               if text = [] then (initialValue, [])
               else (case JSON_parse text of
                       Inl error \<Rightarrow> (initialValue, [ErrorReading key error])
                     | Inr v \<Rightarrow> (v, []))))"

section \<open>Habit repository (\<open>useHabits\<close>)\<close>

text \<open>
  Each operation hands a function \<open>prev => ...\<close> to \<open>setHabits\<close>, which applies it to the
  stored collection, keeps the result as the new collection and writes it to the store.
  An operation is modelled as that function, from the collection before the call to the
  collection after it; a call is taken to see the collection that the call before it has
  left (the component has rendered between the two calls). \<open>addHabit\<close> reads the clock
  twice: \<open>Date.now()\<close> for the id and \<open>new Date()\<close> for \<open>createdAt\<close>; when \<open>formatDate\<close>
  throws, \<open>setHabits\<close> is not reached and the collection stays as it is.
\<close>

definition addHabit ::
  "int \<Rightarrow> int \<Rightarrow> string \<Rightarrow> string \<Rightarrow> string \<Rightarrow> Habit list \<Rightarrow> Habit list" where
  "addHabit now now' nm em col prev =
     (case formatDate (new_Date now') of
        Inl error \<Rightarrow> prev
      | Inr created \<Rightarrow>
          prev @ [\<lparr>h_id = Number_toString now, name = nm, emoji = em, color = col,
                    createdAt = created, completions = fmempty\<rparr>])"

definition deleteHabit :: "string \<Rightarrow> Habit list \<Rightarrow> Habit list" where
  "deleteHabit ident prev = filter (\<lambda>habit. h_id habit \<noteq> ident) prev"

text \<open>
  \<open>updateHabit\<close> (in \<open>hooks/useHabits\<close> only; no component calls it): the spread
  \<open>{ ...habit, ...updates }\<close> takes every field that \<open>updates\<close> has from \<open>updates\<close> and
  the others from \<open>habit\<close>.
\<close>

definition spread :: "Habit \<Rightarrow> HabitUpdates \<Rightarrow> Habit" where
  "spread habit updates =
     \<lparr>h_id = (case new_id updates of None \<Rightarrow> h_id habit | Some v \<Rightarrow> v),
      name = (case new_name updates of None \<Rightarrow> name habit | Some v \<Rightarrow> v),
      emoji = (case new_emoji updates of None \<Rightarrow> emoji habit | Some v \<Rightarrow> v),
      color = (case new_color updates of None \<Rightarrow> color habit | Some v \<Rightarrow> v),
      createdAt = (case new_createdAt updates of None \<Rightarrow> createdAt habit | Some v \<Rightarrow> v),
      completions =
        (case new_completions updates of None \<Rightarrow> completions habit | Some v \<Rightarrow> v)\<rparr>"

definition updateHabit :: "string \<Rightarrow> HabitUpdates \<Rightarrow> Habit list \<Rightarrow> Habit list" where
  "updateHabit ident updates prev =
     map (\<lambda>habit. if h_id habit = ident then spread habit updates else habit) prev"

definition toggleCompletion :: "string \<Rightarrow> string \<Rightarrow> Habit list \<Rightarrow> Habit list" where
  "toggleCompletion habitId date prev =
     map (\<lambda>habit.
            if h_id habit = habitId
            then habit\<lparr>completions :=
                   fmupd date (\<not> truthy (completions habit) date) (completions habit)\<rparr>
            else habit)
         prev"

text \<open>
  Calls of \<open>addHabit\<close>, \<open>deleteHabit\<close> and \<open>toggleCompletion\<close>, the operations that the
  components use, and the collection after a sequence of them.
\<close>

datatype event =
    AddHabit int int string string string
  | DeleteHabit string
  | ToggleCompletion string string

fun step :: "event \<Rightarrow> Habit list \<Rightarrow> Habit list" where
  "step (AddHabit now now' nm em col) hs = addHabit now now' nm em col hs"
| "step (DeleteHabit ident) hs = deleteHabit ident hs"
| "step (ToggleCompletion habitId date) hs = toggleCompletion habitId date hs"

definition run :: "event list \<Rightarrow> Habit list \<Rightarrow> Habit list" where
  "run evs hs = fold step evs hs"

text \<open>The \<open>Date.now()\<close> readings of the \<open>addHabit\<close> calls of a sequence, in order.\<close>

fun addClocks :: "event list \<Rightarrow> int list" where
  "addClocks [] = []"
| "addClocks (AddHabit now now' nm em col # evs) = now # addClocks evs"
| "addClocks (ev # evs) = addClocks evs"

fun isDelete :: "event \<Rightarrow> bool" where
  "isDelete (DeleteHabit ident) = True"
| "isDelete ev = False"

section \<open>Statistics engine (\<open>calculateStreak\<close>, \<open>getHabitStats\<close>)\<close>

text \<open>
  \<open>calculateStreak\<close>: the loop \<open>for (let i = 0; i >= 0; i--)\<close>. \<open>continue\<close> goes on with
  \<open>i--\<close> and the loop test, \<open>break\<close> leaves the loop.
\<close>

function calculateStreak_loop ::
  "TimeZone \<Rightarrow> Date \<Rightarrow> Habit \<Rightarrow> int \<Rightarrow> nat \<Rightarrow> js_error + nat" where
  "calculateStreak_loop tz today habit i streak =
     (if i \<ge> 0
      then (case formatDate (setDate tz today (minus_Number (getDate tz today) i)) of
              Inl error \<Rightarrow> Inl error
            | Inr dateString \<Rightarrow>
                if truthy (completions habit) dateString
                then calculateStreak_loop tz today habit (i - 1) (streak + 1)
                else if i = 0
                then calculateStreak_loop tz today habit (i - 1) streak
                else Inr streak)
      else Inr streak)"
  by pat_completeness auto
termination
  by (relation "measure (\<lambda>(tz, today, habit, i, streak). nat (i + 1))") auto

declare calculateStreak_loop.simps [simp del]

definition calculateStreak :: "TimeZone \<Rightarrow> int \<Rightarrow> Habit \<Rightarrow> js_error + nat" where
  "calculateStreak tz now habit = calculateStreak_loop tz (new_Date now) habit 0 0"

text \<open>
  The longest-streak scan of \<open>getHabitStats\<close>: \<open>for (const date of sortedDates)\<close> with the
  two counters \<open>longestStreak\<close> and \<open>tempStreak\<close>.
\<close>

fun longestStreak_loop :: "Habit \<Rightarrow> string list \<Rightarrow> nat \<Rightarrow> nat \<Rightarrow> nat" where
  "longestStreak_loop habit [] longest temp = longest"
| "longestStreak_loop habit (date # rest) longest temp =
     (if truthy (completions habit) date
      then longestStreak_loop habit rest (max longest (temp + 1)) (temp + 1)
      else longestStreak_loop habit rest longest 0)"

definition getHabitStats :: "TimeZone \<Rightarrow> int \<Rightarrow> Habit \<Rightarrow> js_error + HabitStats" where
  "getHabitStats tz now habit =
     (let completed = length (filter (\<lambda>v. v) (Object_values (completions habit)));
          totalDays = length (Object_keys (completions habit))
      in case calculateStreak tz now habit of
           Inl error \<Rightarrow> Inl error
         | Inr current \<Rightarrow>
             (let sortedDates = sort (Object_keys (completions habit));
                  longest = longestStreak_loop habit sortedDates 0 0
              in Inr \<lparr>currentStreak = current,
                      longestStreak = longest,
                      completionRate =
                        (if totalDays > 0 then (real completed / real totalDays) * 100 else 0),
                      totalCompletions = completed\<rparr>))"

section \<open>Concrete machines and habits\<close>

text \<open>A machine on UTC, and one on Central European Time around the start of summer time
  on 2024-03-31 at 01:00 UTC (02:00 local time becomes 03:00).\<close>

definition utc :: TimeZone where
  "utc = \<lparr>offsetAtUTC = (\<lambda>t. 0), offsetAtLocal = (\<lambda>t. 0)\<rparr>"

definition berlin :: TimeZone where
  "berlin =
     \<lparr>offsetAtUTC = (\<lambda>t. if t < 1711846800000 then 3600000 else 7200000),
      offsetAtLocal = (\<lambda>t. if t < 1711854000000 then 3600000 else 7200000)\<rparr>"

text \<open>
  A machine on Eastern European Time (Europe/Chisinau) around the end of summer time on
  2024-10-27 at 00:00 UTC (03:00 local time becomes 02:00). A local time of the hour that
  occurs twice is read back with the offset in force before the change, as ECMAScript
  prescribes.
\<close>

definition chisinau :: TimeZone where
  "chisinau =
     \<lparr>offsetAtUTC = (\<lambda>t. if t < 1729987200000 then 10800000 else 7200000),
      offsetAtLocal = (\<lambda>t. if t < 1729998000000 then 10800000 else 7200000)\<rparr>"


definition jan06_noon :: int where
  "jan06_noon = 1704542400000"

definition mar31_late :: int where
  "mar31_late = 1711927800000"

text \<open>The clock reading 2024-10-27T00:30Z, which is 02:30 local time in Chisinau.\<close>

definition oct27_early :: int where
  "oct27_early = 1729989000000"

definition readHabit :: Habit where
  "readHabit =
     \<lparr>h_id = ''1704542400000'', name = ''Read'', emoji = ''R'', color = ''#f00'',
      createdAt = ''2024-01-06'', completions = fmempty\<rparr>"

text \<open>Scenario B of the specification: two completed days, then a day marked not completed.\<close>

definition scenarioB :: Habit where
  "scenarioB =
     readHabit\<lparr>completions :=
       fmupd ''2024-01-03'' False
         (fmupd ''2024-01-02'' True (fmupd ''2024-01-01'' True fmempty))\<rparr>"

text \<open>Scenario C of the specification: yesterday completed, today not touched.\<close>

definition scenarioC :: Habit where
  "scenarioC = readHabit\<lparr>completions := fmupd ''2024-01-05'' True fmempty\<rparr>"


text \<open>Three completed days in a row, the last of them 2024-01-06.\<close>

definition threeDays :: Habit where
  "threeDays =
     readHabit\<lparr>completions :=
       fmupd ''2024-01-06'' True
         (fmupd ''2024-01-05'' True (fmupd ''2024-01-04'' True fmempty))\<rparr>"

text \<open>A habit completed on 2024-10-26 and not touched since.\<close>

definition oct26Habit :: Habit where
  "oct26Habit = readHabit\<lparr>completions := fmupd ''2024-10-26'' True fmempty\<rparr>"

text \<open>The update \<open>{ completions: {} }\<close>.\<close>

definition clearCompletions :: HabitUpdates where
  "clearCompletions =
     \<lparr>new_id = None, new_name = None, new_emoji = None, new_color = None,
      new_createdAt = None, new_completions = Some fmempty\<rparr>"

text \<open>Two \<open>addHabit\<close> calls that read the same millisecond from the clock.\<close>

definition sameMillisecond :: "event list" where
  "sameMillisecond =
     [AddHabit 1704542400000 1704542400000 ''Gym'' ''G'' ''#f00'',
      AddHabit 1704542400000 1704542400000 ''Read'' ''R'' ''#0f0'']"

definition laterMillisecond :: "event list" where
  "laterMillisecond =
     [AddHabit 1704542400000 1704542400000 ''Gym'' ''G'' ''#f00'',
      ToggleCompletion ''1704542400000'' ''2024-01-06'',
      AddHabit 1704542400001 1704542400001 ''Read'' ''R'' ''#0f0'']"

text \<open>A store without the key, and a store whose text \<open>JSON.parse\<close> rejects.\<close>

definition emptyStore :: "string \<Rightarrow> js_error + string option" where
  "emptyStore key = Inr None"

definition brokenStore :: "string \<Rightarrow> js_error + string option" where
  "brokenStore key = Inr (if key = ''habits'' then Some ''[{'' else None)"

definition rejectingParser :: "string \<Rightarrow> js_error + Habit list" where
  "rejectingParser text = Inl SyntaxError"

text \<open>
  A store that holds the text \<open>null\<close> under the key \<open>habits\<close>, and \<open>JSON.parse\<close> on the
  texts \<open>null\<close>, \<open>true\<close>, \<open>false\<close> and \<open>[]\<close>. The examples store no other text that
  \<open>JSON.parse\<close> accepts, and \<open>parseLiteral\<close> rejects all others.
\<close>

definition nullStore :: "string \<Rightarrow> js_error + string option" where
  "nullStore key = Inr (if key = ''habits'' then Some ''null'' else None)"

definition parseLiteral :: "string \<Rightarrow> js_error + json" where
  "parseLiteral text =
     (if text = ''null'' then Inr JNull
      else if text = ''true'' then Inr (JBool True)
      else if text = ''false'' then Inr (JBool False)
      else if text = ''[]'' then Inr (JArray [])
      else Inl SyntaxError)"

section \<open>The calendar\<close>

subsection \<open>Years\<close>

lemma div_lo: "0 < k \<Longrightarrow> k * (x div k) \<le> (x::int)"
  by (metis mult.commute div_mult_mod_eq pos_mod_sign add.commute le_add_same_cancel2 zle_iff_zadd)

lemma div_hi: "0 < k \<Longrightarrow> (x::int) < k * (x div k) + k"
  by (metis add.commute add_less_cancel_left mult_div_mod_eq pos_mod_bound)

text \<open>The year before the estimated one starts no later than day \<open>d\<close>.\<close>

lemma DayFromYear_est_lower:
  "DayFromYear (1970 + (400 * d) div 146097 - 1) \<le> d"
proof -
  define q where "q = (400 * d) div 146097"
  have "146097 * q \<le> 400 * d" unfolding q_def by (rule div_lo) simp
  moreover have "4 * ((q + 1969 - 1969) div 4) \<le> q" using div_lo [of 4 q] by simp
  moreover have "q + 68 < 100 * ((q + 68) div 100) + 100" by (rule div_hi) simp
  moreover have "400 * ((q + 368) div 400) \<le> q + 368" by (rule div_lo) simp
  ultimately have "400 * DayFromYear (1970 + q - 1) \<le> 400 * d"
    unfolding DayFromYear_def by (simp add: algebra_simps)
  then show ?thesis unfolding q_def by simp
qed

text \<open>The second year after the estimated one starts after day \<open>d\<close>.\<close>

lemma DayFromYear_est_upper:
  "d < DayFromYear (1970 + (400 * d) div 146097 + 2)"
proof -
  define q where "q = (400 * d) div 146097"
  have "400 * d < 146097 * q + 146097" unfolding q_def by (rule div_hi) simp
  moreover have "q + 3 < 4 * ((q + 3) div 4) + 4" by (rule div_hi) simp
  moreover have "100 * ((q + 71) div 100) \<le> q + 71" by (rule div_lo) simp
  moreover have "q + 371 < 400 * ((q + 371) div 400) + 400" by (rule div_hi) simp
  ultimately have "400 * d < 400 * DayFromYear (1970 + q + 2)"
    unfolding DayFromYear_def by (simp add: algebra_simps)
  then show ?thesis unfolding q_def by simp
qed

lemma YearFromTime_lower: "DayFromYear (YearFromTime t) \<le> Day t"
  using DayFromYear_est_lower [of "Day t"]
  by (auto simp: YearFromTime_def Let_def)

lemma YearFromTime_upper: "Day t < DayFromYear (YearFromTime t + 1)"
  using DayFromYear_est_upper [of "Day t"]
  by (auto simp: YearFromTime_def Let_def)

lemma div_succ:
  fixes x k :: int
  assumes "0 < k"
  shows "(x + 1) div k = x div k + (if (x + 1) mod k = 0 then 1 else 0)"
proof -
  define q where "q = x div k"
  define r where "r = x mod k"
  have x: "x = k * q + r" unfolding q_def r_def by simp
  have r: "0 \<le> r" "r < k" unfolding r_def using assms by simp_all
  show ?thesis
  proof (cases "r + 1 = k")
    case True
    have e: "x + 1 = k * (q + 1) + 0" using x True by (simp add: algebra_simps)
    have "(x + 1) div k = q + 1" by (rule int_div_pos_eq [OF e]) (use assms in simp_all)
    moreover have "(x + 1) mod k = 0" by (rule int_mod_pos_eq [OF e]) (use assms in simp_all)
    ultimately show ?thesis unfolding q_def by simp
  next
    case False
    then have r1: "0 \<le> r + 1" "r + 1 < k" using r by simp_all
    have e: "x + 1 = k * q + (r + 1)" using x by simp
    have "(x + 1) div k = q" by (rule int_div_pos_eq [OF e r1])
    moreover have "(x + 1) mod k = r + 1" by (rule int_mod_pos_eq [OF e r1])
    ultimately show ?thesis unfolding q_def using r by simp
  qed
qed

lemma mod_shift:
  "(y - 1968) mod 4 = 0 \<longleftrightarrow> y mod 4 = (0::int)"
  "(y - 1900) mod 100 = 0 \<longleftrightarrow> y mod 100 = (0::int)"
  "(y - 1600) mod 400 = 0 \<longleftrightarrow> y mod 400 = (0::int)"
proof -
  have "(y + 4 * - 492) mod 4 = y mod 4" by (rule mod_mult_self2)
  then show "(y - 1968) mod 4 = 0 \<longleftrightarrow> y mod 4 = (0::int)" by simp
  have "(y + 100 * - 19) mod 100 = y mod 100" by (rule mod_mult_self2)
  then show "(y - 1900) mod 100 = 0 \<longleftrightarrow> y mod 100 = (0::int)" by simp
  have "(y + 400 * - 4) mod 400 = y mod 400" by (rule mod_mult_self2)
  then show "(y - 1600) mod 400 = 0 \<longleftrightarrow> y mod 400 = (0::int)" by simp
qed

lemma mod_coarser:
  fixes y :: int
  assumes "y mod a = 0" "b dvd a"
  shows "y mod b = 0"
proof -
  from assms(1) have "a dvd y" by (simp add: dvd_eq_mod_eq_0)
  with assms(2) have "b dvd y" by (rule dvd_trans)
  then show ?thesis by simp
qed

text \<open>A year starts where the year before it ends.\<close>

lemma DayFromYear_step: "DayFromYear (y + 1) = DayFromYear y + DaysInYear y"
proof -
  have a: "(y - 1968) div 4 = (y - 1969) div 4 + (if y mod 4 = 0 then 1 else 0)"
    using div_succ [of 4 "y - 1969"] mod_shift(1) [of y] by simp
  have b: "(y - 1900) div 100 = (y - 1901) div 100 + (if y mod 100 = 0 then 1 else 0)"
    using div_succ [of 100 "y - 1901"] mod_shift(2) [of y] by simp
  have c: "(y - 1600) div 400 = (y - 1601) div 400 + (if y mod 400 = 0 then 1 else 0)"
    using div_succ [of 400 "y - 1601"] mod_shift(3) [of y] by simp
  have e: "DayFromYear (y + 1)
      = 365 * (y - 1969) + (y - 1968) div 4 - (y - 1900) div 100 + (y - 1600) div 400"
    unfolding DayFromYear_def by simp
  consider "y mod 4 \<noteq> 0" | "y mod 4 = 0" "y mod 100 \<noteq> 0"
    | "y mod 100 = 0" "y mod 400 \<noteq> 0" | "y mod 400 = 0"
    by argo
  then show ?thesis
  proof cases
    case 1
    then have "y mod 100 \<noteq> 0" "y mod 400 \<noteq> 0"
      using mod_coarser [of y 100 4] mod_coarser [of y 400 4] by auto
    with 1 show ?thesis unfolding e a b c by (simp add: DayFromYear_def DaysInYear_def)
  next
    case 2
    then have "y mod 400 \<noteq> 0" using mod_coarser [of y 400 100] by auto
    with 2 show ?thesis unfolding e a b c by (simp add: DayFromYear_def DaysInYear_def)
  next
    case 3
    then have "y mod 4 = 0" using mod_coarser [of y 100 4] by auto
    with 3 show ?thesis unfolding e a b c by (simp add: DayFromYear_def DaysInYear_def)
  next
    case 4
    then have "y mod 4 = 0" "y mod 100 = 0"
      using mod_coarser [of y 400 4] mod_coarser [of y 400 100] by auto
    with 4 show ?thesis unfolding e a b c by (simp add: DayFromYear_def DaysInYear_def)
  qed
qed

lemma DaysInYear_pos: "0 < DaysInYear y"
  by (simp add: DaysInYear_def)

lemma DayFromYear_mono: "y \<le> y' \<Longrightarrow> DayFromYear y \<le> DayFromYear y'"
proof (induction y' rule: int_ge_induct)
  case base
  show ?case by simp
next
  case (step i)
  then show ?case using DayFromYear_step [of i] DaysInYear_pos [of i] by linarith
qed

text \<open>\<open>YearFromTime t\<close> is the largest year that starts no later than \<open>t\<close>.\<close>

lemma YearFromTime_largest: "DayFromYear y \<le> Day t \<Longrightarrow> y \<le> YearFromTime t"
proof (rule ccontr)
  assume a: "DayFromYear y \<le> Day t" and "\<not> y \<le> YearFromTime t"
  then have "YearFromTime t + 1 \<le> y" by simp
  then have "DayFromYear (YearFromTime t + 1) \<le> DayFromYear y" by (rule DayFromYear_mono)
  then show False using a YearFromTime_upper [of t] by linarith
qed

subsection \<open>Months and days\<close>

lemma InLeapYear_cases: "InLeapYear t = 0 \<or> InLeapYear t = 1"
  by (simp add: InLeapYear_def)

lemma DayWithinYear_range:
  "0 \<le> DayWithinYear t \<and> DayWithinYear t < DaysInYear (YearFromTime t)"
  using YearFromTime_lower [of t] YearFromTime_upper [of t] DayFromYear_step [of "YearFromTime t"]
  by (simp add: DayWithinYear_def)

lemma DaysInYear_leap: "DaysInYear y = 365 + (if DaysInYear y = 366 then 1 else 0)"
  by (simp add: DaysInYear_def)

lemma MonthFromTime_range: "0 \<le> MonthFromTime t \<and> MonthFromTime t \<le> 11"
  by (simp add: MonthFromTime_def Let_def)

lemma DateFromTime_range: "1 \<le> DateFromTime t \<and> DateFromTime t \<le> 31"
proof -
  have r: "0 \<le> DayWithinYear t" "DayWithinYear t < 365 + InLeapYear t"
    using DayWithinYear_range [of t] DaysInYear_leap [of "YearFromTime t"]
    by (simp_all add: InLeapYear_def)
  from InLeapYear_cases [of t] show ?thesis
  proof
    assume l: "InLeapYear t = 0"
    show ?thesis using r unfolding DateFromTime_def MonthFromTime_def monthStart_def Let_def l
      by auto
  next
    assume l: "InLeapYear t = 1"
    show ?thesis using r unfolding DateFromTime_def MonthFromTime_def monthStart_def Let_def l
      by auto
  qed
qed

text \<open>The calendar date determines the day number, and the day number the calendar date.\<close>

lemma Day_from_date:
  "Day t = DayFromYear (YearFromTime t) + monthStart (MonthFromTime t) (InLeapYear t)
             + DateFromTime t - 1"
  by (simp add: DateFromTime_def DayWithinYear_def)

lemma calendar_Day:
  assumes "Day t = Day t'"
  shows "YearFromTime t = YearFromTime t'" "MonthFromTime t = MonthFromTime t'"
    "DateFromTime t = DateFromTime t'"
proof -
  show Y: "YearFromTime t = YearFromTime t'" using assms by (simp add: YearFromTime_def)
  have W: "DayWithinYear t = DayWithinYear t'" using assms Y by (simp add: DayWithinYear_def)
  have L: "InLeapYear t = InLeapYear t'" using Y by (simp add: InLeapYear_def)
  show M: "MonthFromTime t = MonthFromTime t'" unfolding MonthFromTime_def W L ..
  show "DateFromTime t = DateFromTime t'" unfolding DateFromTime_def W L M ..
qed

subsection \<open>Moving a date by days\<close>

text \<open>Taking a date apart and putting it together again, \<open>i\<close> days earlier.\<close>

lemma MakeDay_roundtrip:
  "MakeDay (YearFromTime t) (MonthFromTime t) (DateFromTime t - i) = Day t - i"
proof -
  have "MonthFromTime t div 12 = 0" "MonthFromTime t mod 12 = MonthFromTime t"
    using MonthFromTime_range [of t] by simp_all
  then show ?thesis
    by (simp add: MakeDay_def DateFromTime_def DayWithinYear_def InLeapYear_def Let_def)
qed

lemma MakeDate_Day: "MakeDate (Day t - i) (TimeWithinDay t) = t - i * msPerDay"
  by (simp add: MakeDate_def Day_def TimeWithinDay_def algebra_simps msPerDay_def)

text \<open>
  \<open>date.setDate(today.getDate() - i)\<close> keeps the local time of day and moves the local
  calendar day back by \<open>i\<close>.
\<close>

lemma setDate_getDate:
  "setDate tz (Some t) (minus_Number (getDate tz (Some t)) i) =
     TimeClip (UTC tz (LocalTime tz t - i * msPerDay))"
  by (simp add: setDate_def getDate_def minus_Number_def Let_def MakeDay_roundtrip MakeDate_Day)

lemma Day_shift: "Day (t - k * msPerDay) = Day t - k"
  by (simp add: Day_def msPerDay_def)

text \<open>In a time zone of constant offset a local time reads back as the instant it came from.\<close>

lemma constant_offset_reads_back:
  "offsetAtUTC tz = (\<lambda>t. off) \<Longrightarrow> offsetAtLocal tz = (\<lambda>t. off) \<Longrightarrow>
   UTC tz (LocalTime tz now) = now"
  by (simp add: UTC_def LocalTime_def)

section \<open>Numbers and dates as text\<close>

lemma of_char_digit_char: "d < 10 \<Longrightarrow> (of_char (digit_char d) :: nat) = 48 + d"
proof -
  assume d: "d < 10"
  have "(of_char (char_of (48 + d)) :: nat) = (48 + d) mod 256"
    by (rule of_char_of)
  also have "\<dots> = 48 + d" using d by (intro mod_less) linarith
  finally show ?thesis unfolding digit_char_def .
qed

lemma digit_char_not_sign:
  "d < 10 \<Longrightarrow> digit_char d \<noteq> CHR ''-'' \<and> digit_char d \<noteq> CHR ''+''"
proof (intro conjI notI)
  assume d: "d < 10" and eq: "digit_char d = CHR ''-''"
  have "(of_char (digit_char d) :: nat) = of_char CHR ''-''" using eq by (rule arg_cong)
  then have "48 + d = (45::nat)" unfolding of_char_digit_char [OF d] by simp
  then show False by linarith
next
  assume d: "d < 10" and eq: "digit_char d = CHR ''+''"
  have "(of_char (digit_char d) :: nat) = of_char CHR ''+''" using eq by (rule arg_cong)
  then have "48 + d = (43::nat)" unfolding of_char_digit_char [OF d] by simp
  then show False by linarith
qed

lemma digits_nonempty: "digits n \<noteq> []"
  by (subst digits.simps) simp

text \<open>Equations that evaluate \<open>digits\<close> on a numeral.\<close>

lemma digits_small: "n < 10 \<Longrightarrow> digits n = [digit_char n]"
  by (subst digits.simps) simp

lemma digits_large: "\<not> n < 10 \<Longrightarrow> digits n = digits (n div 10) @ [digit_char (n mod 10)]"
  by (subst digits.simps) simp

lemma digit_char_table:
  "digit_char 0 = CHR ''0''" "digit_char 1 = CHR ''1''" "digit_char 2 = CHR ''2''"
  "digit_char 3 = CHR ''3''" "digit_char 4 = CHR ''4''" "digit_char 5 = CHR ''5''"
  "digit_char 6 = CHR ''6''" "digit_char 7 = CHR ''7''" "digit_char 8 = CHR ''8''"
  "digit_char 9 = CHR ''9''" "digit_char (Suc 0) = CHR ''1''"
  by code_simp+

lemmas Number_toString_eval =
  Number_toString_def digits_small digits_large digit_char_table

subsection \<open>Different numbers are written differently\<close>

lemma digits_value_snoc: "digits_value (s @ [c]) = 10 * digits_value s + (of_char c - 48)"
  by (simp add: digits_value_def)

lemma digits_value_digits: "digits_value (digits n) = n"
proof (induction n rule: digits.induct)
  case (1 n)
  show ?case
  proof (cases "n < 10")
    case True
    then show ?thesis
      by (simp add: digits.simps [of n] digits_value_def of_char_digit_char)
  next
    case False
    then have "digits_value (digits n) = 10 * (n div 10) + n mod 10"
      using "1.IH" by (simp add: digits.simps [of n] digits_value_snoc of_char_digit_char)
    then show ?thesis by simp
  qed
qed

lemma digits_inj: "digits n = digits m \<Longrightarrow> n = m"
  by (metis digits_value_digits)

lemma digits_value_zeros:
  "foldl (\<lambda>a c. 10 * a + (of_char c - 48)) 0 (replicate k CHR ''0'') = (0::nat)"
  by (induction k) simp_all

lemma digits_value_padStart: "digits_value (padStart k (digits n)) = n"
proof -
  have "digits_value (padStart k (digits n))
          = foldl (\<lambda>a c. 10 * a + (of_char c - 48)) 0 (digits n)"
    by (simp add: digits_value_def padStart_def digits_value_zeros)
  then show ?thesis using digits_value_digits [of n] by (simp add: digits_value_def)
qed

lemma padStart_digits_inj: "padStart k (digits n) = padStart k (digits m) \<Longrightarrow> n = m"
  by (metis digits_value_padStart)

lemma digits_no_sign: "CHR ''-'' \<notin> set (digits n) \<and> CHR ''+'' \<notin> set (digits n)"
proof (induction n rule: digits.induct)
  case (1 n)
  show ?case
  proof (cases "n < 10")
    case True
    then show ?thesis using digit_char_not_sign [of n] by (auto simp: digits.simps [of n])
  next
    case False
    then show ?thesis
      using "1.IH" digit_char_not_sign [of "n mod 10"] by (auto simp: digits.simps [of n])
  qed
qed

lemma padStart_no_sign:
  "CHR ''-'' \<notin> set (padStart k (digits n)) \<and> CHR ''+'' \<notin> set (padStart k (digits n))"
  using digits_no_sign [of n] by (auto simp: padStart_def)

lemma padStart_nonempty: "padStart k (digits n) \<noteq> []"
  using digits_nonempty by (simp add: padStart_def)

lemma Number_toString_inj: "Number_toString i = Number_toString j \<Longrightarrow> i = j"
proof -
  assume eq: "Number_toString i = Number_toString j"
  consider "i < 0" "j < 0" | "i < 0" "0 \<le> j" | "0 \<le> i" "j < 0" | "0 \<le> i" "0 \<le> j"
    by linarith
  then show "i = j"
  proof cases
    case 1
    with eq have "digits (nat (- i)) = digits (nat (- j))" by (simp add: Number_toString_def)
    then have "nat (- i) = nat (- j)" by (rule digits_inj)
    with 1 show ?thesis by simp
  next
    case 2
    with eq have "CHR ''-'' # digits (nat (- i)) = digits (nat j)"
      by (simp add: Number_toString_def)
    then have "CHR ''-'' \<in> set (digits (nat j))" by (metis list.set_intros(1))
    then show ?thesis using digits_no_sign by blast
  next
    case 3
    with eq have "digits (nat i) = CHR ''-'' # digits (nat (- j))"
      by (simp add: Number_toString_def)
    then have "CHR ''-'' \<in> set (digits (nat i))" by (metis list.set_intros(1))
    then show ?thesis using digits_no_sign by blast
  next
    case 4
    with eq have "digits (nat i) = digits (nat j)" by (simp add: Number_toString_def)
    then have "nat i = nat j" by (rule digits_inj)
    with 4 show ?thesis by simp
  qed
qed

subsection \<open>Different UTC days have different identifiers\<close>

text \<open>A text is cut in one way only at the last occurrence of a character.\<close>

lemma split_at_last:
  "xs @ c # ys = xs' @ c # ys' \<Longrightarrow> c \<notin> set ys \<Longrightarrow> c \<notin> set ys' \<Longrightarrow> xs = xs' \<and> ys = ys'"
proof -
  have fst: "us = us' \<and> vs = vs'"
    if "us @ c # vs = us' @ c # vs'" "c \<notin> set us" "c \<notin> set us'" for us us' vs vs' :: "'a list"
    using that
  proof (induction us arbitrary: us')
    case Nil
    then show ?case by (cases us') auto
  next
    case (Cons u us)
    then show ?case by (cases us') auto
  qed
  assume a: "xs @ c # ys = xs' @ c # ys'" and n: "c \<notin> set ys" "c \<notin> set ys'"
  from a have "rev (xs @ c # ys) = rev (xs' @ c # ys')" by simp
  then have "rev ys @ c # rev xs = rev ys' @ c # rev xs'" by simp
  from fst [OF this] n show ?thesis by simp
qed

lemma isoYear_inj: "isoYear y = isoYear y' \<Longrightarrow> y = y'"
proof -
  assume eq: "isoYear y = isoYear y'"
  let ?A = "\<lambda>y::int. 0 \<le> y \<and> y \<le> 9999"
  have headA: "hd (isoYear y) \<noteq> CHR ''-'' \<and> hd (isoYear y) \<noteq> CHR ''+''" if "?A y" for y
  proof -
    have "isoYear y = padStart 4 (digits (nat y))" using that by (simp add: isoYear_def)
    moreover have "hd (padStart 4 (digits (nat y))) \<in> set (padStart 4 (digits (nat y)))"
      using padStart_nonempty by (intro hd_in_set)
    ultimately show ?thesis using padStart_no_sign [of 4 "nat y"] by metis
  qed
  have headB: "hd (isoYear y) = (if y < 0 then CHR ''-'' else CHR ''+'')" if "\<not> ?A y" for y
    using that by (simp add: isoYear_def)
  show "y = y'"
  proof (cases "?A y")
    case True
    show ?thesis
    proof (cases "?A y'")
      case y': True
      from eq True y' have "padStart 4 (digits (nat y)) = padStart 4 (digits (nat y'))"
        by (simp add: isoYear_def)
      then have "nat y = nat y'" by (rule padStart_digits_inj)
      then show ?thesis using True y' by linarith
    next
      case False
      then show ?thesis using headA [OF True] headB [OF False] eq by (auto split: if_splits)
    qed
  next
    case False
    show ?thesis
    proof (cases "?A y'")
      case True
      then show ?thesis using headA [OF True] headB [OF False] eq by (auto split: if_splits)
    next
      case y': False
      from eq False y' have s: "(y < 0) = (y' < 0)"
        and "padStart 6 (digits (nat \<bar>y\<bar>)) = padStart 6 (digits (nat \<bar>y'\<bar>))"
        by (auto simp: isoYear_def split: if_splits)
      then have "nat \<bar>y\<bar> = nat \<bar>y'\<bar>" using padStart_digits_inj by blast
      then show ?thesis using s by linarith
    qed
  qed
qed

lemma isoDate_Day:
  assumes "Day t = Day t'"
  shows "isoDate t = isoDate t'"
  unfolding isoDate_def calendar_Day [OF assms] ..

lemma isoDate_inj:
  assumes "isoDate t = isoDate t'"
  shows "Day t = Day t'"
proof -
  let ?Y = "YearFromTime t" and ?M = "MonthFromTime t" and ?D = "DateFromTime t"
  let ?Y' = "YearFromTime t'" and ?M' = "MonthFromTime t'" and ?D' = "DateFromTime t'"
  let ?m = "padStart 2 (digits (nat (?M + 1)))" and ?d = "padStart 2 (digits (nat ?D))"
  let ?m' = "padStart 2 (digits (nat (?M' + 1)))" and ?d' = "padStart 2 (digits (nat ?D'))"
  have nd: "CHR ''-'' \<notin> set ?d" "CHR ''-'' \<notin> set ?d'"
    and nm: "CHR ''-'' \<notin> set ?m" "CHR ''-'' \<notin> set ?m'"
    using padStart_no_sign [of 2 "nat ?D"] padStart_no_sign [of 2 "nat ?D'"]
      padStart_no_sign [of 2 "nat (?M + 1)"] padStart_no_sign [of 2 "nat (?M' + 1)"]
    by simp_all
  have "(isoYear ?Y @ ''-'' @ ?m) @ CHR ''-'' # ?d = (isoYear ?Y' @ ''-'' @ ?m') @ CHR ''-'' # ?d'"
    using assms unfolding isoDate_def by simp
  from split_at_last [OF this nd]
  have 1: "isoYear ?Y @ ''-'' @ ?m = isoYear ?Y' @ ''-'' @ ?m'" and d: "?d = ?d'"
    by simp_all
  from 1 have "isoYear ?Y @ CHR ''-'' # ?m = isoYear ?Y' @ CHR ''-'' # ?m'" by simp
  from split_at_last [OF this nm]
  have y: "isoYear ?Y = isoYear ?Y'" and m: "?m = ?m'"
    by simp_all
  from y have Y: "?Y = ?Y'" by (rule isoYear_inj)
  from m have "nat (?M + 1) = nat (?M' + 1)" by (rule padStart_digits_inj)
  then have M: "?M = ?M'" using MonthFromTime_range [of t] MonthFromTime_range [of t'] by linarith
  from d have "nat ?D = nat ?D'" by (rule padStart_digits_inj)
  then have D: "?D = ?D'" using DateFromTime_range [of t] DateFromTime_range [of t'] by linarith
  have L: "InLeapYear t = InLeapYear t'" using Y by (simp add: InLeapYear_def)
  show ?thesis
    unfolding Day_from_date [of t] Day_from_date [of t'] Y M D L ..
qed

text \<open>
  Two time values get the same identifier from \<open>toISOString\<close> exactly when they lie on the
  same UTC calendar day.
\<close>

lemma isoDate_eq_iff: "isoDate t = isoDate t' \<longleftrightarrow> Day t = Day t'"
  using isoDate_inj isoDate_Day by blast

section \<open>The habit repository\<close>

lemma deleteHabit_unknown: "ident \<notin> h_id ` set hs \<Longrightarrow> deleteHabit ident hs = hs"
  by (induction hs) (auto simp: deleteHabit_def)

lemma toggleCompletion_unknown:
  "ident \<notin> h_id ` set hs \<Longrightarrow> toggleCompletion ident date hs = hs"
  by (induction hs) (auto simp: toggleCompletion_def)

text \<open>
  Claim C7. Deleting a habit id that no habit of the collection has, and toggling a day of
  such an id, leave the collection as it is; deleting the same id twice in a row gives the
  collection that deleting it once gives.
\<close>

theorem unknown_id_is_noop:
  "(ident \<notin> h_id ` set hs \<longrightarrow>
      deleteHabit ident hs = hs \<and> toggleCompletion ident date hs = hs)
   \<and> deleteHabit ident (deleteHabit ident hs) = deleteHabit ident hs"
  by (simp add: deleteHabit_unknown toggleCompletion_unknown) (simp add: deleteHabit_def)

theorem unknown_id_is_noop_witness:
  "''7'' \<notin> h_id ` set [readHabit]
   \<and> deleteHabit ''7'' [readHabit] = [readHabit]
   \<and> toggleCompletion ''7'' ''2024-01-06'' [readHabit] = [readHabit]
   \<and> deleteHabit ''1704542400000'' (deleteHabit ''1704542400000'' [readHabit])
       = deleteHabit ''1704542400000'' [readHabit]"
  using unknown_id_is_noop [of "''7''" "[readHabit]" "''2024-01-06''"]
    unknown_id_is_noop [of "''1704542400000''" "[readHabit]" "''2024-01-06''"]
  by (simp add: readHabit_def)

subsection \<open>Toggling twice\<close>

lemma fmupd_same: "fmlookup c k = Some v \<Longrightarrow> fmupd k v c = c"
  by (rule fmap_ext) auto

lemma toggle_twice_entry:
  assumes "date |\<in>| fmdom c"
  shows "fmupd date (\<not> truthy (fmupd date (\<not> truthy c date) c) date) c = c"
proof -
  from assms obtain b where b: "fmlookup c date = Some b"
    by (auto simp: fmlookup_dom_iff)
  have "(\<not> truthy (fmupd date (\<not> truthy c date) c) date) = b"
    using b by (simp add: truthy_def)
  then show ?thesis using b by (simp only: fmupd_same)
qed

lemma toggle_twice_collection:
  "\<forall>h \<in> set hs. h_id h = habitId \<longrightarrow> date |\<in>| fmdom (completions h) \<Longrightarrow>
   toggleCompletion habitId date (toggleCompletion habitId date hs) = hs"
  by (induction hs) (simp_all add: toggleCompletion_def toggle_twice_entry)

lemma toggle_twice_state:
  "map (\<lambda>h. truthy (completions h) d)
     (toggleCompletion habitId date (toggleCompletion habitId date hs))
     = map (\<lambda>h. truthy (completions h) d) hs"
  by (induction hs) (auto simp: toggleCompletion_def truthy_def)

lemma ids_toggleCompletion: "map h_id (toggleCompletion habitId date hs) = map h_id hs"
  by (induction hs) (simp_all add: toggleCompletion_def)

text \<open>
  Claim C2. Toggling the same day of the same habit id twice in a row gives every habit
  the completion state it had before, on that day and on every other day, and keeps the
  habits and their order; where the day already had an entry in every habit with that id,
  the collection is again what it was.
\<close>

theorem toggle_twice_restores:
  "map (\<lambda>h. truthy (completions h) d)
     (toggleCompletion habitId date (toggleCompletion habitId date hs))
     = map (\<lambda>h. truthy (completions h) d) hs
   \<and> map h_id (toggleCompletion habitId date (toggleCompletion habitId date hs)) = map h_id hs
   \<and> ((\<forall>h \<in> set hs. h_id h = habitId \<longrightarrow> date |\<in>| fmdom (completions h)) \<longrightarrow>
        toggleCompletion habitId date (toggleCompletion habitId date hs) = hs)"
  by (simp add: toggle_twice_state ids_toggleCompletion toggle_twice_collection)

theorem toggle_twice_restores_witness:
  "toggleCompletion ''1704542400000'' ''2024-01-03''
     (toggleCompletion ''1704542400000'' ''2024-01-03'' [scenarioB]) = [scenarioB]
   \<and> map (\<lambda>h. truthy (completions h) ''2024-01-03'')
        (toggleCompletion ''1704542400000'' ''2024-01-03''
          (toggleCompletion ''1704542400000'' ''2024-01-03'' [scenarioB, readHabit]))
        = [False, False]"
  using toggle_twice_restores [of "''2024-01-03''" "''1704542400000''" "''2024-01-03''" "[scenarioB]"]
    toggle_twice_restores [of "''2024-01-03''" "''1704542400000''" "''2024-01-03''"
      "[scenarioB, readHabit]"]
  by (simp add: scenarioB_def readHabit_def truthy_def)

subsection \<open>Entries are never removed\<close>

lemma addHabit_append:
  "addHabit now now' nm em col prev =
     prev @ [\<lparr>h_id = Number_toString now, name = nm, emoji = em, color = col,
               createdAt = isoDate now', completions = fmempty\<rparr>]"
  by (simp add: addHabit_def formatDate_def new_Date_def)

lemma run_Cons: "run (ev # evs) hs = run evs (step ev hs)"
  by (simp add: run_def)

lemma run_Nil: "run [] hs = hs"
  by (simp add: run_def)

lemma length_Object_keys: "length (Object_keys c) = fcard (fmdom c)"
  by (simp add: Object_keys_def sorted_list_of_fset.rep_eq fcard.rep_eq)

lemma toggled_entry:
  "i < length hs \<Longrightarrow> h_id (hs ! i) = habitId \<Longrightarrow>
   fmlookup (completions (toggleCompletion habitId date hs ! i)) date
     = Some (\<not> truthy (completions (hs ! i)) date)"
  by (simp add: toggleCompletion_def)

lemma toggled_twice_absent:
  "i < length hs \<Longrightarrow> h_id (hs ! i) = habitId \<Longrightarrow>
   fmlookup (completions (hs ! i)) date = None \<Longrightarrow>
   fmlookup
     (completions (toggleCompletion habitId date (toggleCompletion habitId date hs) ! i)) date
     = Some False"
  by (simp add: toggleCompletion_def truthy_def)

lemma step_keeps_keys:
  assumes "i < length hs" "\<not> isDelete ev"
  shows "i < length (step ev hs) \<and> h_id (step ev hs ! i) = h_id (hs ! i)
         \<and> fmdom (completions (hs ! i)) |\<subseteq>| fmdom (completions (step ev hs ! i))"
proof (cases ev)
  case (AddHabit now now' nm em col)
  then show ?thesis using assms(1) by (simp add: addHabit_append nth_append)
next
  case (DeleteHabit ident)
  then show ?thesis using assms(2) by simp
next
  case (ToggleCompletion habitId date)
  then show ?thesis using assms(1) by (auto simp: toggleCompletion_def)
qed

lemma run_keeps_keys:
  "i < length hs \<Longrightarrow> \<not> list_ex isDelete evs \<Longrightarrow>
   i < length (run evs hs) \<and> h_id (run evs hs ! i) = h_id (hs ! i)
   \<and> fmdom (completions (hs ! i)) |\<subseteq>| fmdom (completions (run evs hs ! i))"
proof (induction evs arbitrary: hs)
  case Nil
  then show ?case by (simp add: run_Nil)
next
  case (Cons ev evs)
  from Cons.prems have nd: "\<not> isDelete ev" and rest: "\<not> list_ex isDelete evs" by simp_all
  note s = step_keeps_keys [OF Cons.prems(1) nd]
  from s have i: "i < length (step ev hs)" by simp
  from Cons.IH [OF i rest] s show ?case unfolding run_Cons by auto
qed

text \<open>
  Claim C10, as stated, has it that no operation other than \<open>deleteHabit\<close> ever removes
  a key of \<open>completions\<close>. The hook \<open>hooks/useHabits\<close> also offers \<open>updateHabit\<close>, which
  replaces whatever fields it is given: with \<open>{ completions: {} }\<close> the habit of scenario
  B goes from three keys to none.
\<close>

theorem updateHabit_removes_keys:
  "length (Object_keys (completions ([scenarioB] ! 0))) = 3
   \<and> length (Object_keys
        (completions (updateHabit ''1704542400000'' clearCompletions [scenarioB] ! 0))) = 0"
  by code_simp

text \<open>
  Claim C10, amended. After \<open>toggleCompletion\<close> the toggled day has an entry with an
  explicit flag in the habit with that id: the negation of its former completion state,
  so an absent day toggled twice ends as an explicit \<open>false\<close>. \<open>addHabit\<close> and
  \<open>toggleCompletion\<close> remove no key: along any sequence of calls of these two a habit
  keeps its place, its id and every key of its completions, so the number of its keys
  (the denominator of the completion rate) does not decrease.
\<close>

theorem toggle_keeps_keys:
  "(i < length hs \<and> h_id (hs ! i) = habitId \<longrightarrow>
      fmlookup (completions (toggleCompletion habitId date hs ! i)) date
        = Some (\<not> truthy (completions (hs ! i)) date))
   \<and> (i < length hs \<and> h_id (hs ! i) = habitId \<and> fmlookup (completions (hs ! i)) date = None \<longrightarrow>
      fmlookup
        (completions (toggleCompletion habitId date (toggleCompletion habitId date hs) ! i))
        date = Some False)
   \<and> (i < length hs \<and> \<not> list_ex isDelete evs \<longrightarrow>
        i < length (run evs hs) \<and> h_id (run evs hs ! i) = h_id (hs ! i)
        \<and> fmdom (completions (hs ! i)) |\<subseteq>| fmdom (completions (run evs hs ! i))
        \<and> length (Object_keys (completions (hs ! i)))
            \<le> length (Object_keys (completions (run evs hs ! i))))"
proof (intro conjI impI)
  assume "i < length hs \<and> h_id (hs ! i) = habitId"
  then show "fmlookup (completions (toggleCompletion habitId date hs ! i)) date
        = Some (\<not> truthy (completions (hs ! i)) date)"
    using toggled_entry [of i hs habitId date] by simp
next
  assume "i < length hs \<and> h_id (hs ! i) = habitId \<and> fmlookup (completions (hs ! i)) date = None"
  then show "fmlookup
        (completions (toggleCompletion habitId date (toggleCompletion habitId date hs) ! i))
        date = Some False"
    using toggled_twice_absent [of i hs habitId date] by simp
next
  assume a: "i < length hs \<and> \<not> list_ex isDelete evs"
  then have r: "i < length (run evs hs) \<and> h_id (run evs hs ! i) = h_id (hs ! i)
   \<and> fmdom (completions (hs ! i)) |\<subseteq>| fmdom (completions (run evs hs ! i))"
    using run_keeps_keys [of i hs evs] by simp
  from r show "i < length (run evs hs)" by simp
  from r show "h_id (run evs hs ! i) = h_id (hs ! i)" by simp
  from r show sub: "fmdom (completions (hs ! i)) |\<subseteq>| fmdom (completions (run evs hs ! i))"
    by simp
  show "length (Object_keys (completions (hs ! i)))
            \<le> length (Object_keys (completions (run evs hs ! i)))"
    unfolding length_Object_keys using sub by (rule fcard_mono)
qed

theorem toggle_keeps_keys_witness:
  "fmlookup (completions (toggleCompletion ''1704542400000'' ''2024-01-06'' [readHabit] ! 0))
     ''2024-01-06'' = Some True
   \<and> fmlookup
       (completions
         (toggleCompletion ''1704542400000'' ''2024-01-06''
           (toggleCompletion ''1704542400000'' ''2024-01-06'' [readHabit]) ! 0))
       ''2024-01-06'' = Some False
   \<and> length (Object_keys (completions ([readHabit] ! 0)))
       \<le> length (Object_keys (completions
             (run [ToggleCompletion ''1704542400000'' ''2024-01-06'',
                   ToggleCompletion ''1704542400000'' ''2024-01-06''] [readHabit] ! 0)))"
  using toggle_keeps_keys [of 0 "[readHabit]" "''1704542400000''" "''2024-01-06''"
      "[ToggleCompletion ''1704542400000'' ''2024-01-06'',
        ToggleCompletion ''1704542400000'' ''2024-01-06'']"]
  by (simp add: readHabit_def truthy_def)

subsection \<open>Habit ids\<close>

lemma ids_deleteHabit:
  "map h_id (deleteHabit ident hs) = filter (\<lambda>i. i \<noteq> ident) (map h_id hs)"
  by (induction hs) (simp_all add: deleteHabit_def)

text \<open>
  The ids stay distinct as long as every \<open>addHabit\<close> reads a clock value that no earlier
  \<open>addHabit\<close> has read and that is the id of no habit present at the start.
\<close>

lemma distinct_ids_run:
  "distinct (map h_id hs) \<Longrightarrow> distinct (addClocks evs) \<Longrightarrow>
   h_id ` set hs \<inter> Number_toString ` set (addClocks evs) = {} \<Longrightarrow>
   distinct (map h_id (run evs hs))"
proof (induction evs arbitrary: hs)
  case Nil
  then show ?case by (simp add: run_Nil)
next
  case (Cons ev evs)
  show ?case
  proof (cases ev)
    case (AddHabit now now' nm em col)
    let ?hs' = "step ev hs"
    have ids: "map h_id ?hs' = map h_id hs @ [Number_toString now]"
      using AddHabit by (simp add: addHabit_append)
    have fresh: "Number_toString now \<notin> h_id ` set hs"
      using Cons.prems(3) AddHabit by auto
    have d1: "distinct (map h_id ?hs')"
      using Cons.prems(1) fresh unfolding ids by simp
    have d2: "distinct (addClocks evs)" and notin: "now \<notin> set (addClocks evs)"
      using Cons.prems(2) AddHabit by simp_all
    have "Number_toString now \<notin> Number_toString ` set (addClocks evs)"
      using notin Number_toString_inj by blast
    moreover have "h_id ` set hs \<inter> Number_toString ` set (addClocks evs) = {}"
      using Cons.prems(3) AddHabit by auto
    moreover have "h_id ` set ?hs' = insert (Number_toString now) (h_id ` set hs)"
      using AddHabit by (simp add: addHabit_append)
    ultimately have d3: "h_id ` set ?hs' \<inter> Number_toString ` set (addClocks evs) = {}"
      by auto
    show ?thesis unfolding run_Cons by (rule Cons.IH [OF d1 d2 d3])
  next
    case (DeleteHabit ident)
    let ?hs' = "step ev hs"
    have d1: "distinct (map h_id ?hs')"
      using Cons.prems(1) DeleteHabit by (simp add: ids_deleteHabit)
    have d2: "distinct (addClocks evs)" using Cons.prems(2) DeleteHabit by simp
    have "h_id ` set ?hs' \<subseteq> h_id ` set hs"
      using DeleteHabit by (auto simp: deleteHabit_def)
    then have d3: "h_id ` set ?hs' \<inter> Number_toString ` set (addClocks evs) = {}"
      using Cons.prems(3) DeleteHabit by auto
    show ?thesis unfolding run_Cons by (rule Cons.IH [OF d1 d2 d3])
  next
    case (ToggleCompletion habitId date)
    let ?hs' = "step ev hs"
    have ids: "map h_id ?hs' = map h_id hs"
      using ToggleCompletion by (simp add: ids_toggleCompletion)
    have d1: "distinct (map h_id ?hs')" using Cons.prems(1) ids by simp
    have d2: "distinct (addClocks evs)" using Cons.prems(2) ToggleCompletion by simp
    have "h_id ` set ?hs' = h_id ` set hs" using ids by (metis list.set_map)
    then have d3: "h_id ` set ?hs' \<inter> Number_toString ` set (addClocks evs) = {}"
      using Cons.prems(3) ToggleCompletion by auto
    show ?thesis unfolding run_Cons by (rule Cons.IH [OF d1 d2 d3])
  qed
qed

text \<open>
  Claim C3, as stated: in every collection reachable from the empty one the ids are
  pairwise distinct. The id is \<open>Date.now().toString()\<close>, and two \<open>addHabit\<close> calls that
  read the same millisecond produce two habits with one id.
\<close>

theorem ids_not_always_distinct:
  "map h_id (run sameMillisecond []) = [''1704542400000'', ''1704542400000'']
   \<and> \<not> distinct (map h_id (run sameMillisecond []))"
  by (simp add: sameMillisecond_def run_def addHabit_append Number_toString_eval)

text \<open>
  Claim C3, amended: in every collection reachable from the empty one by calls whose
  \<open>addHabit\<close>s read pairwise different values of \<open>Date.now()\<close>, the ids are pairwise
  distinct.
\<close>

theorem ids_distinct_if_clocks_distinct:
  "distinct (addClocks evs) \<Longrightarrow> distinct (map h_id (run evs []))"
  by (rule distinct_ids_run) simp_all

theorem ids_distinct_if_clocks_distinct_witness:
  "distinct (addClocks laterMillisecond)
   \<and> distinct (map h_id (run laterMillisecond []))
   \<and> map h_id (run laterMillisecond []) = [''1704542400000'', ''1704542400001'']"
proof -
  have h: "distinct (addClocks laterMillisecond)"
    by (simp add: laterMillisecond_def)
  have ids: "map h_id (run laterMillisecond []) = [''1704542400000'', ''1704542400001'']"
    by (simp add: laterMillisecond_def run_def addHabit_append ids_toggleCompletion
          Number_toString_eval)
  from h ids ids_distinct_if_clocks_distinct [OF h] show ?thesis by simp
qed

section \<open>The persistent store\<close>

text \<open>
  Claim C8, as stated, has the read fall back to the default whenever the stored value is
  corrupt. The read checks nothing about a text that \<open>JSON.parse\<close> accepts: with the text
  \<open>null\<close> stored under \<open>habits\<close>, the read for the habit collection returns \<open>null\<close> and
  not the default \<open>[]\<close>.
\<close>

theorem storage_read_returns_unvalidated:
  "useLocalStorage_read nullStore parseLiteral ''habits'' (JArray []) = (JNull, [])
   \<and> JNull \<noteq> JArray []"
  by (simp add: useLocalStorage_read_def nullStore_def parseLiteral_def)

text \<open>
  Claim C8, amended. The read of the store gives the caller's default when the key was
  never written, when the stored text is empty, when \<open>JSON.parse\<close> rejects the stored text
  and when the store itself throws; the error is logged and no exception reaches the
  caller. A stored text that \<open>JSON.parse\<close> accepts is returned as parsed, whatever its
  shape.
\<close>

theorem storage_read_falls_back:
  "(getItem key = Inr None \<longrightarrow>
      useLocalStorage_read getItem JSON_parse key initialValue = (initialValue, []))
   \<and> (getItem key = Inr (Some text) \<and> JSON_parse text = Inl err \<longrightarrow>
      useLocalStorage_read getItem JSON_parse key initialValue
        = (initialValue, if text = [] then [] else [ErrorReading key err]))
   \<and> (getItem key = Inl err \<longrightarrow>
      useLocalStorage_read getItem JSON_parse key initialValue
        = (initialValue, [ErrorReading key err]))
   \<and> (getItem key = Inr (Some text) \<and> JSON_parse text = Inr v \<longrightarrow>
      useLocalStorage_read getItem JSON_parse key initialValue
        = (if text = [] then initialValue else v, []))"
  by (simp add: useLocalStorage_read_def)

theorem storage_read_falls_back_witness:
  "useLocalStorage_read emptyStore rejectingParser ''habits'' [] = ([], [])
   \<and> useLocalStorage_read brokenStore rejectingParser ''habits'' []
       = ([], [ErrorReading ''habits'' SyntaxError])
   \<and> useLocalStorage_read (\<lambda>key. Inl SecurityError) rejectingParser ''habits'' []
       = ([], [ErrorReading ''habits'' SecurityError])
   \<and> useLocalStorage_read nullStore parseLiteral ''habits'' (JArray [JNull]) = (JNull, [])"
  using storage_read_falls_back [of emptyStore "''habits''" rejectingParser "[]" "''[{''"
      SyntaxError "[]"]
    storage_read_falls_back [of brokenStore "''habits''" rejectingParser "[]" "''[{''"
      SyntaxError "[]"]
    storage_read_falls_back [of "\<lambda>key. Inl SecurityError" "''habits''" rejectingParser "[]"
      "''[{''" SecurityError "[]"]
    storage_read_falls_back [of nullStore "''habits''" parseLiteral "JArray [JNull]" "''null''"
      SyntaxError JNull]
  by (simp add: emptyStore_def brokenStore_def rejectingParser_def nullStore_def
        parseLiteral_def)

section \<open>The statistics engine\<close>

subsection \<open>The current streak\<close>

text \<open>
  The loop of \<open>calculateStreak\<close> starts at \<open>i = 0\<close> and counts down, so its body runs
  once: after the first round \<open>i\<close> is \<open>-1\<close> and the test \<open>i >= 0\<close> fails.
\<close>

lemma calculateStreak_unfold:
  "calculateStreak tz now habit =
     (case formatDate (setDate tz (new_Date now) (minus_Number (getDate tz (new_Date now)) 0)) of
        Inl e \<Rightarrow> Inl e
      | Inr today \<Rightarrow> Inr (if truthy (completions habit) today then 1 else 0))"
  unfolding calculateStreak_def
  by (subst calculateStreak_loop.simps) (simp add: calculateStreak_loop.simps split: sum.splits)

text \<open>
  On a machine whose clock is in the range of time values and whose local time reads back
  as the same instant, the day examined is \<open>formatDate(new Date())\<close>.
\<close>

lemma today_examined:
  "\<bar>now\<bar> \<le> 8640000000000000 \<Longrightarrow> UTC tz (LocalTime tz now) = now \<Longrightarrow>
   formatDate (setDate tz (new_Date now) (minus_Number (getDate tz (new_Date now)) 0))
     = Inr (isoDate now)"
  by (simp add: new_Date_def setDate_getDate TimeClip_def formatDate_def)

lemma calculateStreak_returns:
  "\<bar>now\<bar> \<le> 8640000000000000 \<Longrightarrow> UTC tz (LocalTime tz now) = now \<Longrightarrow>
   calculateStreak tz now habit = Inr (if truthy (completions habit) (isoDate now) then 1 else 0)"
  by (simp add: calculateStreak_unfold today_examined)

text \<open>
  Claim C9, as stated, has \<open>calculateStreak\<close> return 1 exactly when the entry for today is
  true. The day examined is not \<open>formatDate(new Date())\<close> but the day of the date after
  \<open>setDate(today.getDate() - 0)\<close>, which reads the local time back as an instant. In
  Chisinau at 2024-10-27T00:30Z the local time 02:30 occurs for the second time and is
  read back as its first occurrence, 2024-10-26T23:30Z: the day examined is 2024-10-26,
  and a habit with an entry for that day only gets 1, although 2024-10-27 is today both
  in UTC and in local time and has no entry.
\<close>

theorem calculateStreak_examines_yesterday:
  "formatDate (new_Date oct27_early) = Inr ''2024-10-27''
   \<and> isoDate (LocalTime chisinau oct27_early) = ''2024-10-27''
   \<and> fmlookup (completions oct26Habit) ''2024-10-27'' = None
   \<and> formatDate
        (setDate chisinau (new_Date oct27_early)
          (minus_Number (getDate chisinau (new_Date oct27_early)) 0))
       = Inr ''2024-10-26''
   \<and> calculateStreak chisinau oct27_early oct26Habit = Inr 1"
  by code_simp

text \<open>
  Claim C9, amended. \<open>calculateStreak\<close> examines day offset 0 only: when it returns, it
  returns 1 if the entry of the day it computes at offset 0 is true and 0 otherwise,
  whatever the entries of earlier days are (it throws when the date at offset 0 is
  invalid). That day is the UTC calendar day of the date after
  \<open>setDate(today.getDate() - 0)\<close>. On a machine whose clock is a time value and whose
  local time reads back as the same instant, the function returns and that day is
  \<open>formatDate(new Date())\<close>, the UTC calendar day of the clock.
\<close>

theorem calculateStreak_only_today:
  "calculateStreak tz now habit =
     (case formatDate (setDate tz (new_Date now) (minus_Number (getDate tz (new_Date now)) 0)) of
        Inl e \<Rightarrow> Inl e
      | Inr today \<Rightarrow> Inr (if truthy (completions habit) today then 1 else 0))
   \<and> (\<bar>now\<bar> \<le> 8640000000000000 \<and> UTC tz (LocalTime tz now) = now \<longrightarrow>
        formatDate (new_Date now) = Inr (isoDate now) \<and>
        calculateStreak tz now habit
          = Inr (if truthy (completions habit) (isoDate now) then 1 else 0))"
  using calculateStreak_unfold [of tz now habit] calculateStreak_returns [of now tz habit]
  by (simp add: formatDate_def new_Date_def)

theorem calculateStreak_only_today_witness:
  "isoDate jan06_noon = ''2024-01-06''
   \<and> calculateStreak utc jan06_noon threeDays = Inr 1
   \<and> calculateStreak utc jan06_noon scenarioC = Inr 0"
proof -
  have d: "isoDate jan06_noon = ''2024-01-06''" by code_simp
  have h: "\<bar>jan06_noon\<bar> \<le> 8640000000000000 \<and> UTC utc (LocalTime utc jan06_noon) = jan06_noon"
    by (simp add: jan06_noon_def UTC_def LocalTime_def utc_def)
  have t3: "truthy (completions threeDays) ''2024-01-06''"
    by (simp add: threeDays_def truthy_def)
  have tC: "\<not> truthy (completions scenarioC) ''2024-01-06''"
    by (simp add: scenarioC_def truthy_def)
  from calculateStreak_only_today [of utc jan06_noon threeDays, THEN conjunct2, rule_format, OF h]
  have "calculateStreak utc jan06_noon threeDays = Inr 1"
    unfolding d using t3 by simp
  moreover
  from calculateStreak_only_today [of utc jan06_noon scenarioC, THEN conjunct2, rule_format, OF h]
  have "calculateStreak utc jan06_noon scenarioC = Inr 0"
    unfolding d using tC by simp
  ultimately show ?thesis using d by simp
qed

text \<open>
  Claim C1 says that a day not completed today is skipped and the walk goes on to
  yesterday, so that completions \<open>{"2024-01-05": true}\<close> on 2024-01-06 give a current
  streak of 1. The code returns 0 there: the walk never reaches yesterday.
\<close>

theorem calculateStreak_scenarioC:
  "formatDate (new_Date jan06_noon) = Inr ''2024-01-06''
   \<and> fmlookup (completions scenarioC) ''2024-01-05'' = Some True
   \<and> fmlookup (completions scenarioC) ''2024-01-06'' = None
   \<and> calculateStreak utc jan06_noon scenarioC = Inr 0"
  by code_simp

subsection \<open>Keys and values of the completions\<close>









text \<open>\<open>getHabitStats\<close> returns on a machine whose clock and time zone are in order.\<close>

lemma getHabitStats_returns:
  "\<bar>now\<bar> \<le> 8640000000000000 \<Longrightarrow> UTC tz (LocalTime tz now) = now \<Longrightarrow>
   \<exists>stats. getHabitStats tz now habit = Inr stats"
  by (simp add: getHabitStats_def Let_def calculateStreak_returns)

subsection \<open>The longest streak\<close>













subsection \<open>The completion rate\<close>





section \<open>The range of days\<close>

text \<open>The dates that the loop of \<open>getDateRange\<close> pushes, for the offsets \<open>i\<close> down to 0.\<close>

lemma getDateRange_loop_unroll:
  "getDateRange_loop tz today i dates =
     dates @ map (\<lambda>k. setDate tz today (minus_Number (getDate tz today) k)) (rev [0..i])"
proof (induction tz today i dates rule: getDateRange_loop.induct)
  case (1 tz today i dates)
  show ?case
  proof (cases "i \<ge> 0")
    case True
    then have "[0..i] = [0..i - 1] @ [i]" by (simp add: upto_rec2)
    then show ?thesis
      using True "1.IH" [OF True] by (subst getDateRange_loop.simps) simp
  next
    case False
    then show ?thesis by (subst getDateRange_loop.simps) simp
  qed
qed

text \<open>
  In a time zone of constant offset (no daylight saving), and as long as the earliest date
  is a time value, \<open>getDateRange\<close> returns the clock reading moved back by whole days:
  \<open>days\<close> dates on consecutive UTC calendar days (\<open>Day_shift\<close>), with pairwise different
  identifiers, the last of them today.
\<close>

lemma getDateRange_constant_offset:
  assumes "offsetAtUTC tz = (\<lambda>t. off)" "offsetAtLocal tz = (\<lambda>t. off)"
    and "\<bar>now\<bar> \<le> 8640000000000000" "\<bar>now - (days - 1) * msPerDay\<bar> \<le> 8640000000000000"
  shows "getDateRange tz now days = map (\<lambda>k. Some (now - k * msPerDay)) (rev [0..days - 1])"
proof -
  have "setDate tz (Some now) (minus_Number (getDate tz (Some now)) k)
          = Some (now - k * msPerDay)"
    if "k \<in> set [0..days - 1]" for k
  proof -
    from that have k: "0 \<le> k" "k \<le> days - 1" by simp_all
    have "0 \<le> k * msPerDay" using k(1) by (simp add: msPerDay_def)
    moreover have "k * msPerDay \<le> (days - 1) * msPerDay"
      using k(2) by (simp add: msPerDay_def)
    ultimately have "\<bar>now - k * msPerDay\<bar> \<le> 8640000000000000"
      using assms(3,4) by linarith
    then show ?thesis
      by (simp add: setDate_getDate UTC_def LocalTime_def assms(1,2) TimeClip_def)
  qed
  then show ?thesis
    by (simp add: getDateRange_def getDateRange_loop_unroll new_Date_def)
qed

lemma dayRange_constant_offset:
  assumes "offsetAtUTC tz = (\<lambda>t. off)" "offsetAtLocal tz = (\<lambda>t. off)"
    and "\<bar>now\<bar> \<le> 8640000000000000" "\<bar>now - (days - 1) * msPerDay\<bar> \<le> 8640000000000000"
    and "1 \<le> days"
  shows "int (length (getDateRange tz now days)) = days"
    and "map formatDate (getDateRange tz now days)
           = map (\<lambda>k. Inr (isoDate (now - k * msPerDay))) (rev [0..days - 1])"
    and "distinct (map formatDate (getDateRange tz now days))"
    and "last (map formatDate (getDateRange tz now days)) = formatDate (new_Date now)"
proof -
  note r = getDateRange_constant_offset [OF assms(1-4)]
  show "int (length (getDateRange tz now days)) = days"
    using assms(5) by (simp add: r)
  show ids: "map formatDate (getDateRange tz now days)
           = map (\<lambda>k. Inr (isoDate (now - k * msPerDay))) (rev [0..days - 1])"
    by (simp add: r formatDate_def comp_def)
  have "inj_on (\<lambda>k. Inr (isoDate (now - k * msPerDay)) :: js_error + string) A" for A
  proof (rule inj_onI)
    fix k k'
    assume "(Inr (isoDate (now - k * msPerDay)) :: js_error + string)
              = Inr (isoDate (now - k' * msPerDay))"
    then have "isoDate (now - k * msPerDay) = isoDate (now - k' * msPerDay)" by simp
    then have "Day (now - k * msPerDay) = Day (now - k' * msPerDay)" by (rule isoDate_inj)
    then show "k = k'" unfolding Day_shift by simp
  qed
  then show "distinct (map formatDate (getDateRange tz now days))"
    unfolding ids by (simp add: distinct_map)
  have "[0..days - 1] = 0 # [1..days - 1]" using assms(5) by (simp add: upto_rec1)
  then show "last (map formatDate (getDateRange tz now days)) = formatDate (new_Date now)"
    by (simp add: r formatDate_def new_Date_def)
qed

text \<open>
  Claim C5 says that \<open>dayRange(n)\<close> gives \<open>n\<close> distinct day identifiers, one calendar day
  apart, ending today. \<open>getDateRange\<close> moves the date by local calendar days and
  \<open>formatDate\<close> names the UTC calendar day. On a machine in the Central European time
  zone at 01:30 local time on 2024-04-01 (23:30 UTC on 2024-03-31), the two dates of
  \<open>getDateRange(2)\<close> are 00:30 UTC and 23:30 UTC of the same UTC day, since the local day
  before had 23 hours: both get the identifier 2024-03-31.
\<close>

theorem dayRange_berlin_repeats_a_day:
  "getDateRange berlin mar31_late 2 = [Some 1711845000000, Some 1711927800000]
   \<and> map formatDate (getDateRange berlin mar31_late 2)
       = [Inr ''2024-03-31'', Inr ''2024-03-31'']
   \<and> formatDate (new_Date mar31_late) = Inr ''2024-03-31''"
  by code_simp

end
